theory Spec2Isabelle
  imports Complex_Main "HOL-Library.Log_Nat"
begin

section \<open>The SIR notebook\<close>

text \<open>
  The notebook defines two entry points, \<^verbatim>\<open>SIR\<close> and \<^verbatim>\<open>SIR_mitigated\<close>. Each one
  allocates two arrays \<^verbatim>\<open>np.zeros(3)\<close> (\<^verbatim>\<open>du\<close> and \<^verbatim>\<open>u0\<close>), defines the right-hand
  side \<^verbatim>\<open>f(t,u)\<close> of the ODE system as a closure that writes into \<^verbatim>\<open>du\<close>, fills
  \<^verbatim>\<open>u0\<close> from three literal case counts, and hands both to SciPy's \<^verbatim>\<open>solve_ivp\<close>.
  The solver is not part of the notebook; the embedding covers the right-hand sides
  and the initial values, which is all of the notebook's own arithmetic.

  The code is read twice.

  \<^item> The \<^emph>\<open>exact reading\<close> takes every number as a real number. It is used only
    where a statement does not depend on rounding or on the range of doubles: which
    multiplier the mitigated right-hand side selects, and the approximate size of the
    reference initial state.

  \<^item> The \<^emph>\<open>double reading\<close> takes floats as IEEE 754 binary64 numbers, every operation
    rounded to nearest with ties to even, with infinities, NaN and signed zeros, and
    takes a parameter as the Python number it is: an \<^verbatim>\<open>int\<close> or a \<^verbatim>\<open>float\<close>. It is
    used wherever exact equality, a sign or a failure is at stake.

  An array of three floats is a record with one field for each of the indices
  0, 1, 2 (S, I, R); no other index is ever used.
\<close>

subsection \<open>The exact reading\<close>

record vec3 =
  x0 :: real
  x1 :: real
  x2 :: real

definition zeros3 :: vec3 where
  \<comment> \<open>\<^verbatim>\<open>np.zeros(3)\<close>\<close>
  "zeros3 = \<lparr>x0 = 0, x1 = 0, x2 = 0\<rparr>"

datatype error = ZeroDivisionError | OverflowError

text \<open>
  \<^verbatim>\<open>f\<close> assigns the three entries of the shared array \<^verbatim>\<open>du\<close> in turn and returns
  that array. The model threads the content of \<^verbatim>\<open>du\<close> through the call: the argument
  \<open>du\<close> is the content before the call, the result the content after it (which is
  also the returned value).
\<close>

definition SIR_f :: "real \<Rightarrow> real \<Rightarrow> real \<Rightarrow> vec3 \<Rightarrow> real \<Rightarrow> vec3 \<Rightarrow> vec3" where
  "SIR_f beta gamma N du t u =
     (let du = du\<lparr>x0 := - beta * x1 u * x0 u / N\<rparr>;
          du = du\<lparr>x1 := beta * x1 u * x0 u / N - gamma * x1 u\<rparr>;
          du = du\<lparr>x2 := gamma * x1 u\<rparr>
      in du)"

definition qval :: "real \<Rightarrow> real \<Rightarrow> real \<Rightarrow> real" where
  \<comment> \<open>the \<^verbatim>\<open>if t<Nq\<close> at the head of the mitigated \<^verbatim>\<open>f\<close>\<close>
  "qval q Nq t = (if t < Nq then q else 1)"

definition SIR_mitigated_f ::
  "real \<Rightarrow> real \<Rightarrow> real \<Rightarrow> real \<Rightarrow> real \<Rightarrow> vec3 \<Rightarrow> real \<Rightarrow> vec3 \<Rightarrow> vec3" where
  "SIR_mitigated_f beta gamma N q Nq du t u =
     (let qv = qval q Nq t;
          du = du\<lparr>x0 := - qv * beta * x1 u * x0 u / N\<rparr>;
          du = du\<lparr>x1 := qv * beta * x1 u * x0 u / N - gamma * x1 u\<rparr>;
          du = du\<lparr>x2 := gamma * x1 u\<rparr>
      in du)"

text \<open>
  The initial values, lines 68 to 71 of \<^verbatim>\<open>SIR\<close> and 250 to 253 of
  \<^verbatim>\<open>SIR_mitigated\<close>. \<^verbatim>\<open>199258./confirmed_fraction\<close> divides Python floats: it
  raises \<^verbatim>\<open>ZeroDivisionError\<close> when \<^verbatim>\<open>confirmed_fraction\<close> is zero. Real numbers
  neither overflow nor round; what the block does at the ends of the range of doubles
  is the subject of the double reading.
\<close>

definition SIR_u0 :: "real \<Rightarrow> real \<Rightarrow> error + vec3" where
  "SIR_u0 N confirmed_fraction =
     (if confirmed_fraction = 0 then Inl ZeroDivisionError
      else
        let u0 = zeros3;
            total_cases = 199258 / confirmed_fraction;
            u0 = u0\<lparr>x2 := 81972 / confirmed_fraction + 7956\<rparr>;
            u0 = u0\<lparr>x1 := total_cases - x2 u0\<rparr>;
            u0 = u0\<lparr>x0 := N - x1 u0 - x2 u0\<rparr>
        in Inr u0)"

definition SIR_mitigated_u0 :: "real \<Rightarrow> real \<Rightarrow> error + vec3" where
  "SIR_mitigated_u0 N confirmed_fraction =
     (if confirmed_fraction = 0 then Inl ZeroDivisionError
      else
        let u0 = zeros3;
            total_cases = 199258 / confirmed_fraction;
            u0 = u0\<lparr>x2 := 81972 / confirmed_fraction + 7956\<rparr>;
            u0 = u0\<lparr>x1 := total_cases - x2 u0\<rparr>;
            u0 = u0\<lparr>x0 := N - x1 u0 - x2 u0\<rparr>
        in Inr u0)"

text \<open>
  The specification's mitigation multiplier and right-hand side, in its words; a
  schedule is the pair (factor, durationDays).
\<close>

definition q_spec :: "(real \<times> real) option \<Rightarrow> real \<Rightarrow> real" where
  \<comment> \<open>a schedule is the pair (factor, durationDays)\<close>
  "q_spec schedule t =
     (case schedule of
        None \<Rightarrow> 1
      | Some (factor, durationDays) \<Rightarrow> if t < durationDays then factor else 1)"

definition rhs_spec :: "real \<Rightarrow> real \<Rightarrow> real \<Rightarrow> real \<Rightarrow> vec3 \<Rightarrow> vec3" where
  \<comment> \<open>dS/dt, dI/dt, dR/dt with the multiplier \<open>m\<close> in the place of q(t)\<close>
  "rhs_spec m beta gamma N u =
     \<lparr>x0 = - (m * beta * x1 u * x0 u / N),
      x1 = m * beta * x1 u * x0 u / N - gamma * x1 u,
      x2 = gamma * x1 u\<rparr>"

subsection \<open>Doubles\<close>

text \<open>
  A double is a finite value, the negative zero, an infinity or NaN; \<open>Fin 0\<close> is the
  positive zero. \<open>rnd\<close> rounds a real number to the nearest double, ties to the even
  significand: doubles around \<open>x\<close> are the integer multiples of \<open>quantum x\<close>, which is
  \<open>2 ^ (e - 52)\<close> for \<open>2 ^ e \<le> \<bar>x\<bar> < 2 ^ (e + 1)\<close> and \<open>2 ^ - 1074\<close> below the normal
  range; a result beyond the largest double is an infinity, and a negative number that
  rounds to zero is the negative zero.
\<close>

datatype fl = Fin real | NZero | PInf | NInf | NaN

definition round_even :: "real \<Rightarrow> int" where
  "round_even x =
     (let n = \<lfloor>x\<rfloor>; r = x - of_int n
      in if r < 1/2 then n else if 1/2 < r then n + 1 else if even n then n else n + 1)"

definition ilog2 :: "real \<Rightarrow> int" where
  \<comment> \<open>the exponent \<open>e\<close> with \<open>2 ^ e \<le> x < 2 ^ (e + 1)\<close>, for positive \<open>x\<close>\<close>
  "ilog2 x = (if 1 \<le> x then bitlen \<lfloor>x\<rfloor> - 1 else - bitlen (\<lceil>1 / x\<rceil> - 1))"

definition quantum :: "real \<Rightarrow> real" where
  "quantum x = 2 powi (max (ilog2 \<bar>x\<bar>) (- 1022) - 52)"

definition rnd_real :: "real \<Rightarrow> real" where
  "rnd_real x = of_int (round_even (x / quantum x)) * quantum x"

definition max_double :: real where
  "max_double = (2 ^ 53 - 1) * 2 ^ 971"

definition rnd :: "real \<Rightarrow> fl" where
  "rnd x =
     (let y = rnd_real x
      in if max_double < \<bar>y\<bar> then (if 0 < x then PInf else NInf)
         else if y = 0 \<and> x < 0 then NZero
         else Fin y)"

text \<open>
  The operations of IEEE 754, as NumPy's \<^verbatim>\<open>float64\<close> and Python's \<^verbatim>\<open>float\<close> perform
  them. \<open>fl_sign\<close> is the sign bit. A sum that is exactly zero is the positive zero
  unless both summands are negative zeros. \<open>fl_div\<close> is NumPy's division, which
  answers a zero divisor with an infinity or NaN (and a warning) rather than an
  exception.
\<close>

definition fl_val :: "fl \<Rightarrow> real" where
  "fl_val x = (case x of Fin r \<Rightarrow> r | _ \<Rightarrow> 0)"

definition fl_sign :: "fl \<Rightarrow> bool" where
  "fl_sign x =
     (case x of Fin r \<Rightarrow> r < 0 | NZero \<Rightarrow> True | PInf \<Rightarrow> False | NInf \<Rightarrow> True | NaN \<Rightarrow> False)"

definition fl_is_zero :: "fl \<Rightarrow> bool" where
  "fl_is_zero x \<longleftrightarrow> x = Fin 0 \<or> x = NZero"

definition fl_is_inf :: "fl \<Rightarrow> bool" where
  "fl_is_inf x \<longleftrightarrow> x = PInf \<or> x = NInf"

definition fl_zero :: "bool \<Rightarrow> fl" where
  "fl_zero s = (if s then NZero else Fin 0)"

definition fl_inf :: "bool \<Rightarrow> fl" where
  "fl_inf s = (if s then NInf else PInf)"

definition fl_neg :: "fl \<Rightarrow> fl" where
  "fl_neg x =
     (case x of
        Fin r \<Rightarrow> if r = 0 then NZero else Fin (- r)
      | NZero \<Rightarrow> Fin 0
      | PInf \<Rightarrow> NInf
      | NInf \<Rightarrow> PInf
      | NaN \<Rightarrow> NaN)"

definition fl_add :: "fl \<Rightarrow> fl \<Rightarrow> fl" where
  "fl_add x y =
     (if x = NaN \<or> y = NaN then NaN
      else if x = PInf then (if y = NInf then NaN else PInf)
      else if x = NInf then (if y = PInf then NaN else NInf)
      else if fl_is_inf y then y
      else if x = NZero \<and> y = NZero then NZero
      else if fl_val x + fl_val y = 0 then Fin 0
      else rnd (fl_val x + fl_val y))"

definition fl_sub :: "fl \<Rightarrow> fl \<Rightarrow> fl" where
  "fl_sub x y = fl_add x (fl_neg y)"

definition fl_mul :: "fl \<Rightarrow> fl \<Rightarrow> fl" where
  "fl_mul x y =
     (if x = NaN \<or> y = NaN then NaN
      else let s = (fl_sign x \<noteq> fl_sign y)
        in if fl_is_inf x \<or> fl_is_inf y
           then (if fl_is_zero x \<or> fl_is_zero y then NaN else fl_inf s)
           else if fl_val x * fl_val y = 0 then fl_zero s
           else rnd (fl_val x * fl_val y))"

definition fl_div :: "fl \<Rightarrow> fl \<Rightarrow> fl" where
  "fl_div x y =
     (if x = NaN \<or> y = NaN then NaN
      else let s = (fl_sign x \<noteq> fl_sign y)
        in if fl_is_inf x then (if fl_is_inf y then NaN else fl_inf s)
           else if fl_is_inf y then fl_zero s
           else if fl_is_zero y then (if fl_is_zero x then NaN else fl_inf s)
           else if fl_is_zero x then fl_zero s
           else rnd (fl_val x / fl_val y))"

subsection \<open>Python numbers\<close>

text \<open>
  A parameter of the entry points is a Python \<^verbatim>\<open>int\<close> (unbounded) or a \<^verbatim>\<open>float\<close>;
  the defaults give \<^verbatim>\<open>N\<close> as an int and the others as floats. Where an int meets a
  float it is converted to the nearest double, and the conversion raises
  \<^verbatim>\<open>OverflowError\<close> when the int is beyond the range of doubles. Python's own float
  division, unlike NumPy's, raises \<^verbatim>\<open>ZeroDivisionError\<close> on a zero divisor of either
  sign.
\<close>

datatype pynum = PyInt int | PyFloat fl

definition to_double :: "pynum \<Rightarrow> error + fl" where
  "to_double v =
     (case v of
        PyFloat x \<Rightarrow> Inr x
      | PyInt i \<Rightarrow> (let x = rnd (of_int i) in if fl_is_inf x then Inl OverflowError else Inr x))"

definition py_neg :: "pynum \<Rightarrow> pynum" where
  "py_neg v = (case v of PyInt i \<Rightarrow> PyInt (- i) | PyFloat x \<Rightarrow> PyFloat (fl_neg x))"

definition py_truediv :: "fl \<Rightarrow> pynum \<Rightarrow> error + fl" where
  \<comment> \<open>a float literal divided by a parameter\<close>
  "py_truediv x v =
     (case to_double v of
        Inl e \<Rightarrow> Inl e
      | Inr y \<Rightarrow> if fl_is_zero y then Inl ZeroDivisionError else Inr (fl_div x y))"

subsection \<open>The double reading\<close>

record fvec3 =
  y0 :: fl
  y1 :: fl
  y2 :: fl

definition fzeros3 :: fvec3 where
  \<comment> \<open>\<^verbatim>\<open>np.zeros(3)\<close>\<close>
  "fzeros3 = \<lparr>y0 = Fin 0, y1 = Fin 0, y2 = Fin 0\<rparr>"

text \<open>
  The unmitigated \<^verbatim>\<open>f\<close>, lines 61 to 65. \<^verbatim>\<open>u\<close> is an array of doubles, so every
  product and quotient is NumPy's; \<^verbatim>\<open>-beta\<close> negates the Python number before it
  meets \<^verbatim>\<open>u[1]\<close>. A conversion that fails raises out of \<^verbatim>\<open>f\<close>.
\<close>

definition SIR_f_double ::
  "pynum \<Rightarrow> pynum \<Rightarrow> pynum \<Rightarrow> fvec3 \<Rightarrow> fl \<Rightarrow> fvec3 \<Rightarrow> error + fvec3" where
  "SIR_f_double beta gamma N du t u =
     (case to_double (py_neg beta) of Inl e \<Rightarrow> Inl e | Inr nb \<Rightarrow>
      case to_double N of Inl e \<Rightarrow> Inl e | Inr n \<Rightarrow>
        let du = du\<lparr>y0 := fl_div (fl_mul (fl_mul nb (y1 u)) (y0 u)) n\<rparr> in
      case to_double beta of Inl e \<Rightarrow> Inl e | Inr b \<Rightarrow>
      case to_double gamma of Inl e \<Rightarrow> Inl e | Inr g \<Rightarrow>
        let du = du\<lparr>y1 := fl_sub (fl_div (fl_mul (fl_mul b (y1 u)) (y0 u)) n) (fl_mul g (y1 u))\<rparr>;
            du = du\<lparr>y2 := fl_mul g (y1 u)\<rparr>
        in Inr du)"

text \<open>
  The initial values. The two divisions are Python's; the sum with the int literal
  7956 and the differences are taken in doubles; \<^verbatim>\<open>N\<close> is converted where it first
  meets a double, in the last line.
\<close>

definition SIR_u0_double :: "pynum \<Rightarrow> pynum \<Rightarrow> error + fvec3" where
  "SIR_u0_double N confirmed_fraction =
     (let u0 = fzeros3 in
      case py_truediv (Fin 199258) confirmed_fraction of Inl e \<Rightarrow> Inl e | Inr total_cases \<Rightarrow>
      case py_truediv (Fin 81972) confirmed_fraction of Inl e \<Rightarrow> Inl e | Inr r \<Rightarrow>
        let u0 = u0\<lparr>y2 := fl_add r (Fin 7956)\<rparr>;
            u0 = u0\<lparr>y1 := fl_sub total_cases (y2 u0)\<rparr>
        in
      case to_double N of Inl e \<Rightarrow> Inl e | Inr n \<Rightarrow>
        Inr (u0\<lparr>y0 := fl_sub (fl_sub n (y1 u0)) (y2 u0)\<rparr>))"

definition SIR_mitigated_u0_double :: "pynum \<Rightarrow> pynum \<Rightarrow> error + fvec3" where
  "SIR_mitigated_u0_double N confirmed_fraction =
     (let u0 = fzeros3 in
      case py_truediv (Fin 199258) confirmed_fraction of Inl e \<Rightarrow> Inl e | Inr total_cases \<Rightarrow>
      case py_truediv (Fin 81972) confirmed_fraction of Inl e \<Rightarrow> Inl e | Inr r \<Rightarrow>
        let u0 = u0\<lparr>y2 := fl_add r (Fin 7956)\<rparr>;
            u0 = u0\<lparr>y1 := fl_sub total_cases (y2 u0)\<rparr>
        in
      case to_double N of Inl e \<Rightarrow> Inl e | Inr n \<Rightarrow>
        Inr (u0\<lparr>y0 := fl_sub (fl_sub n (y1 u0)) (y2 u0)\<rparr>))"

text \<open>
  The specification's derivation, in its words, for arbitrary observed counts and in
  double arithmetic; it is what the code is compared with.
\<close>

record ObservedCaseCounts =
  cumulativeConfirmed :: fl
  cumulativeRecoveredConfirmed :: fl
  additionalRecoveredOffset :: fl

definition reference_counts :: ObservedCaseCounts where
  "reference_counts =
     \<lparr>cumulativeConfirmed = Fin 199258, cumulativeRecoveredConfirmed = Fin 81972,
      additionalRecoveredOffset = Fin 7956\<rparr>"

definition derive_spec :: "ObservedCaseCounts \<Rightarrow> fl \<Rightarrow> fl \<Rightarrow> fvec3" where
  "derive_spec c confirmedFraction population =
     (let totalCasesEstimate = fl_div (cumulativeConfirmed c) confirmedFraction;
          R0 = fl_add (fl_div (cumulativeRecoveredConfirmed c) confirmedFraction)
                 (additionalRecoveredOffset c);
          I0 = fl_sub totalCasesEstimate R0;
          S0 = fl_sub (fl_sub population I0) R0
      in \<lparr>y0 = S0, y1 = I0, y2 = R0\<rparr>)"

section \<open>Facts about the exact reading\<close>

lemma SIR_f_value:
  "SIR_f beta gamma N du t u =
     \<lparr>x0 = - beta * x1 u * x0 u / N,
      x1 = beta * x1 u * x0 u / N - gamma * x1 u,
      x2 = gamma * x1 u\<rparr>"
  by (simp add: SIR_f_def Let_def)

lemma SIR_mitigated_f_value:
  "SIR_mitigated_f beta gamma N q Nq du t u =
     \<lparr>x0 = - qval q Nq t * beta * x1 u * x0 u / N,
      x1 = qval q Nq t * beta * x1 u * x0 u / N - gamma * x1 u,
      x2 = gamma * x1 u\<rparr>"
  by (simp add: SIR_mitigated_f_def Let_def)

lemma SIR_u0_value:
  "cf \<noteq> 0 \<Longrightarrow>
   SIR_u0 N cf =
     Inr \<lparr>x0 = N - (199258 / cf - (81972 / cf + 7956)) - (81972 / cf + 7956),
          x1 = 199258 / cf - (81972 / cf + 7956),
          x2 = 81972 / cf + 7956\<rparr>"
  by (simp add: SIR_u0_def Let_def zeros3_def)

lemma SIR_mitigated_u0_eq: "SIR_mitigated_u0 N cf = SIR_u0 N cf"
  by (simp add: SIR_mitigated_u0_def SIR_u0_def)

section \<open>Facts about rounding\<close>

text \<open>
  Rounding to an integer is off by at most one half and never crosses an integer; the
  exponent brackets its argument between two powers of two. From these: rounding to a
  double is off by at most half a quantum, which is a relative error of at most
  \<open>2 ^ - 53\<close> in the normal range and an absolute error of at most \<open>2 ^ - 1075\<close>
  below it; it keeps the sign; it stays finite up to \<open>2 ^ 1023\<close> and is infinite from
  \<open>2 ^ 1024\<close> on.
\<close>

lemma round_even_cases: "round_even y = \<lfloor>y\<rfloor> \<or> round_even y = \<lfloor>y\<rfloor> + 1"
  by (simp add: round_even_def Let_def)

lemma round_even_error: "\<bar>of_int (round_even y) - y\<bar> \<le> 1 / 2"
  unfolding round_even_def Let_def
  by (auto simp add: abs_if not_less) linarith+

lemma round_even_ge: "of_int n \<le> y \<Longrightarrow> n \<le> round_even y"
proof -
  assume "of_int n \<le> y"
  then have "n \<le> \<lfloor>y\<rfloor>" by (simp add: le_floor_iff)
  then show ?thesis using round_even_cases [of y] by auto
qed

lemma round_even_le: "y \<le> of_int n \<Longrightarrow> round_even y \<le> n"
proof -
  assume h: "y \<le> of_int n"
  then have f: "\<lfloor>y\<rfloor> \<le> n" by (simp add: floor_le_iff)
  show ?thesis
  proof (cases "y = of_int \<lfloor>y\<rfloor>")
    case True
    then have "round_even y = \<lfloor>y\<rfloor>" by (simp add: round_even_def Let_def)
    then show ?thesis using f by simp
  next
    case False
    then have "of_int \<lfloor>y\<rfloor> < y" using of_int_floor_le [of y] by linarith
    then have "of_int \<lfloor>y\<rfloor> < (of_int n :: real)" using h by linarith
    then have "\<lfloor>y\<rfloor> < n" by simp
    then show ?thesis using round_even_cases [of y] by auto
  qed
qed

lemma ilog2_lower: assumes "0 < x" shows "2 powi (ilog2 x) \<le> x"
proof (cases "1 \<le> x")
  case True
  define n where "n = \<lfloor>x\<rfloor>"
  have n: "0 < n" using True by (simp add: n_def)
  then have b: "1 \<le> bitlen n" by (simp add: bitlen_alt_def)
  have "2 ^ nat (bitlen n - 1) \<le> n" using bitlen_bounds [OF n] by simp
  then have "(2::real) ^ nat (bitlen n - 1) \<le> of_int n"
    by (metis of_int_le_iff of_int_numeral of_int_power)
  also have "\<dots> \<le> x" by (simp add: n_def)
  finally show ?thesis using True b by (simp add: ilog2_def n_def power_int_def)
next
  case False
  define m where "m = \<lceil>1 / x\<rceil> - 1"
  have y: "1 < 1 / x" using False assms by simp
  then have m: "0 < m" by (simp add: m_def less_ceiling_iff)
  have "m < 2 ^ nat (bitlen m)" using bitlen_bounds [OF m] by simp
  then have "m + 1 \<le> 2 ^ nat (bitlen m)" by simp
  then have "(of_int (m + 1) :: real) \<le> 2 ^ nat (bitlen m)"
    by (metis of_int_le_iff of_int_numeral of_int_power)
  moreover have "1 / x \<le> of_int (m + 1)" by (simp add: m_def)
  ultimately have "1 / x \<le> 2 ^ nat (bitlen m)" by linarith
  then have "1 / 2 ^ nat (bitlen m) \<le> x"
    using assms by (simp add: field_simps)
  moreover have "1 \<le> bitlen m" using m by (simp add: bitlen_alt_def)
  ultimately show ?thesis
    using False by (simp add: ilog2_def m_def power_int_def field_simps)
qed

lemma ilog2_upper: assumes "0 < x" shows "x < 2 powi (ilog2 x + 1)"
proof (cases "1 \<le> x")
  case True
  define n where "n = \<lfloor>x\<rfloor>"
  have n: "0 < n" using True by (simp add: n_def)
  have "n < 2 ^ nat (bitlen n)" using bitlen_bounds [OF n] by simp
  then have "n + 1 \<le> 2 ^ nat (bitlen n)" by simp
  then have "(of_int (n + 1) :: real) \<le> 2 ^ nat (bitlen n)"
    by (metis of_int_le_iff of_int_numeral of_int_power)
  moreover have "x < of_int (n + 1)" by (simp add: n_def)
  ultimately have "x < 2 ^ nat (bitlen n)" by linarith
  then show ?thesis
    using True bitlen_nonneg [of n] by (simp add: ilog2_def n_def power_int_def)
next
  case False
  define m where "m = \<lceil>1 / x\<rceil> - 1"
  have y: "1 < 1 / x" using False assms by simp
  then have m: "0 < m" by (simp add: m_def less_ceiling_iff)
  then have b: "1 \<le> bitlen m" by (simp add: bitlen_alt_def)
  have "2 ^ nat (bitlen m - 1) \<le> m" using bitlen_bounds [OF m] by simp
  then have "(2::real) ^ nat (bitlen m - 1) \<le> of_int m"
    by (metis of_int_le_iff of_int_numeral of_int_power)
  moreover have "of_int m < 1 / x" by (simp add: m_def) linarith
  ultimately have "(2::real) ^ nat (bitlen m - 1) < 1 / x" by linarith
  then have "x < 1 / 2 ^ nat (bitlen m - 1)"
    using assms by (simp add: field_simps)
  moreover have "- bitlen m + 1 \<le> 0" using b by simp
  ultimately show ?thesis
    using False b by (simp add: ilog2_def m_def power_int_def field_simps nat_diff_distrib)
qed

lemma quantum_pos: "0 < quantum x"
  by (simp add: quantum_def)

lemma rnd_real_zero: "rnd_real 0 = 0"
  by (simp add: rnd_real_def round_even_def)

lemma rnd_real_error: "\<bar>rnd_real x - x\<bar> \<le> quantum x / 2"
proof -
  define q where "q = quantum x"
  have q: "0 < q" by (simp add: q_def quantum_pos)
  have "rnd_real x - x = q * (of_int (round_even (x / q)) - x / q)"
    using q by (simp add: rnd_real_def q_def algebra_simps)
  then have "\<bar>rnd_real x - x\<bar> = q * \<bar>of_int (round_even (x / q)) - x / q\<bar>"
    using q by (simp add: abs_mult)
  also have "\<dots> \<le> q * (1 / 2)"
    using q round_even_error [of "x / q"] by (intro mult_left_mono) simp_all
  finally show ?thesis by (simp add: q_def)
qed

lemma ilog2_ge:
  assumes "2 powi k \<le> x" shows "k \<le> ilog2 x"
proof (rule ccontr)
  assume "\<not> k \<le> ilog2 x"
  then have "ilog2 x + 1 \<le> k" by simp
  then have "(2::real) powi (ilog2 x + 1) \<le> 2 powi k"
    by (intro power_int_increasing) simp_all
  moreover have "0 < x" using assms by (rule less_le_trans [rotated]) simp
  ultimately show False using ilog2_upper [of x] assms by linarith
qed

lemma ilog2_less:
  assumes "0 < x" and "x < 2 powi k" shows "ilog2 x < k"
proof (rule ccontr)
  assume "\<not> ilog2 x < k"
  then have "(2::real) powi k \<le> 2 powi ilog2 x"
    by (intro power_int_increasing) simp_all
  then show False using ilog2_lower [OF assms(1)] assms(2) by linarith
qed

lemma quantum_normal:
  assumes "2 powi (- 1022) \<le> \<bar>x\<bar>"
  shows "quantum x \<le> \<bar>x\<bar> / 2 ^ 52"
proof -
  have pos: "0 < \<bar>x\<bar>" using assms by (rule less_le_trans [rotated]) simp
  have e: "- 1022 \<le> ilog2 \<bar>x\<bar>" using assms by (rule ilog2_ge)
  then have "quantum x = 2 powi (ilog2 \<bar>x\<bar> - 52)"
    by (simp add: quantum_def max_def)
  also have "\<dots> = 2 powi (ilog2 \<bar>x\<bar>) / 2 ^ 52"
    by (simp add: power_int_diff)
  also have "\<dots> \<le> \<bar>x\<bar> / 2 ^ 52"
    using ilog2_lower [OF pos] by (simp add: divide_right_mono)
  finally show ?thesis .
qed

lemma quantum_subnormal:
  assumes "x \<noteq> 0" and "\<bar>x\<bar> < 2 powi (- 1022)"
  shows "quantum x = 2 powi (- 1074)"
proof -
  have "ilog2 \<bar>x\<bar> < - 1022" using assms by (intro ilog2_less) simp_all
  then show ?thesis by (simp add: quantum_def max_def)
qed

lemma rnd_real_rel:
  assumes "2 powi (- 1022) \<le> \<bar>x\<bar>"
  shows "\<bar>rnd_real x - x\<bar> \<le> \<bar>x\<bar> / 2 ^ 53"
  using rnd_real_error [of x] quantum_normal [OF assms] by simp

lemma rnd_real_abs:
  "\<bar>rnd_real x - x\<bar> \<le> \<bar>x\<bar> / 2 ^ 53 + 1 / 2 ^ 1075"
proof (cases "2 powi (- 1022) \<le> \<bar>x\<bar>")
  case True
  then show ?thesis using rnd_real_rel [of x] by simp
next
  case False
  show ?thesis
  proof (cases "x = 0")
    case True
    then show ?thesis by (simp add: rnd_real_zero)
  next
    case nz: False
    have "quantum x = 2 powi (- 1074)" using nz False by (intro quantum_subnormal) simp_all
    then have h: "quantum x / 2 = 1 / 2 ^ 1075" by (simp add: power_int_minus_divide)
    have "\<bar>rnd_real x - x\<bar> \<le> 1 / 2 ^ 1075"
      using rnd_real_error [of x] unfolding h .
    moreover have "0 \<le> \<bar>x\<bar> / 2 ^ 53" by simp
    ultimately show ?thesis by linarith
  qed
qed

lemma rnd_real_nonneg: "0 \<le> x \<Longrightarrow> 0 \<le> rnd_real x"
proof -
  assume "0 \<le> x"
  then have "of_int 0 \<le> x / quantum x" using quantum_pos [of x] by simp
  then have "0 \<le> round_even (x / quantum x)" by (rule round_even_ge)
  then show ?thesis using quantum_pos [of x] by (simp add: rnd_real_def)
qed

lemma rnd_real_nonpos: "x \<le> 0 \<Longrightarrow> rnd_real x \<le> 0"
proof -
  assume "x \<le> 0"
  then have "x / quantum x \<le> of_int 0" using quantum_pos [of x] by (simp add: divide_le_0_iff)
  then have "round_even (x / quantum x) \<le> 0" by (rule round_even_le)
  then show ?thesis using quantum_pos [of x] by (simp add: rnd_real_def mult_le_0_iff)
qed

lemma rnd_real_in_range:
  assumes "\<bar>x\<bar> \<le> 2 ^ 1023"
  shows "\<bar>rnd_real x\<bar> \<le> max_double"
proof -
  have "\<bar>rnd_real x\<bar> \<le> \<bar>x\<bar> + \<bar>rnd_real x - x\<bar>" by linarith
  also have "\<dots> \<le> \<bar>x\<bar> + (\<bar>x\<bar> / 2 ^ 53 + 1 / 2 ^ 1075)"
    using rnd_real_abs [of x] by simp
  also have "\<dots> \<le> 2 ^ 1023 + (2 ^ 1023 / 2 ^ 53 + 1 / 2 ^ 1075)"
    using assms by (intro add_mono divide_right_mono) simp_all
  also have "\<dots> \<le> max_double"
    by (simp add: max_double_def)
  finally show ?thesis .
qed

lemma rnd_nonneg_fin:
  assumes "0 \<le> x" and "x \<le> 2 ^ 1023"
  shows "rnd x = Fin (rnd_real x)"
  using assms rnd_real_in_range [of x] by (simp add: rnd_def Let_def)

lemma rnd_nonzero_fin:
  assumes "rnd_real x \<noteq> 0" and "\<bar>x\<bar> \<le> 2 ^ 1023"
  shows "rnd x = Fin (rnd_real x)"
  using assms rnd_real_in_range [of x] by (simp add: rnd_def Let_def)

lemma rnd_overflow:
  assumes "2 ^ 1024 \<le> x"
  shows "rnd x = PInf"
proof -
  have pos: "0 < x" using assms by (rule less_le_trans [rotated]) simp
  define e where "e = ilog2 \<bar>x\<bar>"
  have "2 powi 1024 \<le> \<bar>x\<bar>" using assms by simp
  then have e: "1024 \<le> e" unfolding e_def by (rule ilog2_ge)
  then have q: "quantum x = 2 powi (e - 52)" by (simp add: quantum_def e_def max_def)
  have "2 powi e \<le> x" using ilog2_lower [of "\<bar>x\<bar>"] pos by (simp add: e_def)
  then have "2 powi e / 2 powi (e - 52) \<le> x / quantum x"
    by (simp add: q divide_right_mono)
  moreover have "(2::real) powi e / 2 powi (e - 52) = of_int (2 ^ 52)"
    by (simp add: power_int_diff)
  ultimately have "of_int (2 ^ 52) \<le> x / quantum x" by simp
  then have "2 ^ 52 \<le> round_even (x / quantum x)" by (rule round_even_ge)
  then have "(2::real) ^ 52 \<le> of_int (round_even (x / quantum x))"
    by (metis of_int_le_iff of_int_numeral of_int_power)
  then have "2 ^ 52 * 2 powi (e - 52) \<le> rnd_real x"
    unfolding rnd_real_def q by (intro mult_right_mono) simp_all
  moreover have "(2::real) ^ 52 * 2 powi (e - 52) = 2 powi e"
    by (simp add: power_int_diff)
  moreover have "(2::real) powi 1024 \<le> 2 powi e"
    using e by (intro power_int_increasing) simp_all
  ultimately have "2 ^ 1024 \<le> rnd_real x" by simp
  moreover have "max_double < 2 ^ 1024" by (simp add: max_double_def)
  ultimately have "max_double < \<bar>rnd_real x\<bar>" by linarith
  then show ?thesis using pos by (simp add: rnd_def Let_def)
qed

section \<open>Facts about the operations\<close>

lemmas rnd_eval = rnd_def rnd_real_def quantum_def ilog2_def round_even_def max_double_def
  Let_def compute_bitlen

lemma fl_neg_Fin: "r \<noteq> 0 \<Longrightarrow> fl_neg (Fin r) = Fin (- r)"
  by (simp add: fl_neg_def)

lemma fl_add_Fin: "a + b \<noteq> 0 \<Longrightarrow> fl_add (Fin a) (Fin b) = rnd (a + b)"
  by (simp add: fl_add_def fl_is_inf_def fl_val_def)

lemma fl_sub_Fin: "b \<noteq> 0 \<Longrightarrow> a \<noteq> b \<Longrightarrow> fl_sub (Fin a) (Fin b) = rnd (a - b)"
  by (simp add: fl_sub_def fl_neg_Fin fl_add_Fin)

lemma fl_mul_Fin: "a \<noteq> 0 \<Longrightarrow> b \<noteq> 0 \<Longrightarrow> fl_mul (Fin a) (Fin b) = rnd (a * b)"
  by (simp add: fl_mul_def fl_is_inf_def fl_val_def Let_def)

lemma fl_div_Fin: "a \<noteq> 0 \<Longrightarrow> b \<noteq> 0 \<Longrightarrow> fl_div (Fin a) (Fin b) = rnd (a / b)"
  by (simp add: fl_div_def fl_is_inf_def fl_is_zero_def fl_val_def Let_def)

lemma fl_mul_zero_right: "0 \<le> a \<Longrightarrow> fl_mul (Fin a) (Fin 0) = Fin 0"
  by (simp add: fl_mul_def fl_is_inf_def fl_val_def fl_sign_def fl_zero_def Let_def)

lemma fl_div_zero_left: "0 < b \<Longrightarrow> fl_div (Fin 0) (Fin b) = Fin 0"
  by (simp add: fl_div_def fl_is_inf_def fl_is_zero_def fl_val_def fl_sign_def fl_zero_def Let_def)

lemma rnd_normal:
  assumes "1 / 2 ^ 1022 \<le> x" and "x \<le> 2 ^ 1023"
  obtains y where "rnd x = Fin y" and "x * (1 - 1 / 2 ^ 53) \<le> y" and "y \<le> x * (1 + 1 / 2 ^ 53)"
proof -
  have pos: "0 < x" using assms(1) by (rule less_le_trans [rotated]) simp
  have "2 powi (- 1022) \<le> \<bar>x\<bar>" using assms(1) pos by (simp add: power_int_minus_divide)
  then have "\<bar>rnd_real x - x\<bar> \<le> \<bar>x\<bar> / 2 ^ 53" by (rule rnd_real_rel)
  then have e: "\<bar>rnd_real x - x\<bar> \<le> x / 2 ^ 53" using pos by simp
  have l: "x * (1 - 1 / 2 ^ 53) = x - x / 2 ^ 53" by (simp add: algebra_simps)
  have u: "x * (1 + 1 / 2 ^ 53) = x + x / 2 ^ 53" by (simp add: algebra_simps)
  have "x * (1 - 1 / 2 ^ 53) \<le> rnd_real x" unfolding l using e by linarith
  moreover have "rnd_real x \<le> x * (1 + 1 / 2 ^ 53)" unfolding u using e by linarith
  moreover have "rnd x = Fin (rnd_real x)" using pos assms(2) by (intro rnd_nonneg_fin) simp_all
  ultimately show thesis using that by blast
qed

lemma rnd_nonneg:
  assumes "0 \<le> x" and "x \<le> 2 ^ 1023"
  obtains y where "rnd x = Fin y" and "0 \<le> y" and "y \<le> x * (1 + 1 / 2 ^ 53) + 1 / 2 ^ 1075"
proof -
  have "\<bar>rnd_real x - x\<bar> \<le> \<bar>x\<bar> / 2 ^ 53 + 1 / 2 ^ 1075" by (rule rnd_real_abs)
  then have e: "\<bar>rnd_real x - x\<bar> \<le> x / 2 ^ 53 + 1 / 2 ^ 1075" using assms(1) by simp
  have u: "x * (1 + 1 / 2 ^ 53) = x + x / 2 ^ 53" by (simp add: algebra_simps)
  have "rnd_real x \<le> x * (1 + 1 / 2 ^ 53) + 1 / 2 ^ 1075"
    unfolding u using e by linarith
  moreover have "rnd x = Fin (rnd_real x)" using assms by (intro rnd_nonneg_fin) simp_all
  moreover have "0 \<le> rnd_real x" using assms(1) by (rule rnd_real_nonneg)
  ultimately show thesis using that by blast
qed

lemma rnd_negative:
  assumes "x \<le> - (1 / 2 ^ 1022)" and "- (2 ^ 1023) \<le> x"
  obtains y where "rnd x = Fin y" and "y \<le> x * (1 - 1 / 2 ^ 53)"
proof -
  have neg: "x < 0" using assms(1) by (rule le_less_trans) simp
  have "2 powi (- 1022) \<le> \<bar>x\<bar>" using assms(1) neg by (simp add: power_int_minus_divide)
  then have "\<bar>rnd_real x - x\<bar> \<le> \<bar>x\<bar> / 2 ^ 53" by (rule rnd_real_rel)
  then have e: "\<bar>rnd_real x - x\<bar> \<le> - x / 2 ^ 53" using neg by simp
  have l: "x * (1 - 1 / 2 ^ 53) = x - x / 2 ^ 53" by (simp add: algebra_simps)
  have le: "rnd_real x \<le> x * (1 - 1 / 2 ^ 53)" unfolding l using e by linarith
  have "x * (1 - 1 / 2 ^ 53) < 0" using neg by (simp add: mult_less_0_iff)
  then have "rnd_real x < 0" using le by linarith
  then have "rnd x = Fin (rnd_real x)" using neg assms(2) by (intro rnd_nonzero_fin) simp_all
  then show thesis using that le by blast
qed

lemma fl_mul_normal:
  assumes "0 < a" and "0 < b" and "1 / 2 ^ 1022 \<le> a * b" and "a * b \<le> 2 ^ 1023"
  obtains y where "fl_mul (Fin a) (Fin b) = Fin y"
    and "a * b * (1 - 1 / 2 ^ 53) \<le> y" and "y \<le> a * b * (1 + 1 / 2 ^ 53)"
proof -
  have "fl_mul (Fin a) (Fin b) = rnd (a * b)" using assms(1,2) by (simp add: fl_mul_Fin)
  then show thesis using rnd_normal [OF assms(3,4)] that by metis
qed

lemma fl_mul_nonneg:
  assumes "0 \<le> a" and "0 \<le> b" and "a * b \<le> 2 ^ 1023"
  obtains y where "fl_mul (Fin a) (Fin b) = Fin y" and "0 \<le> y"
    and "y \<le> a * b * (1 + 1 / 2 ^ 53) + 1 / 2 ^ 1075"
proof (cases "a * b = 0")
  case True
  then have "fl_mul (Fin a) (Fin b) = Fin 0"
    using assms(1,2) by (simp add: fl_mul_def fl_is_inf_def fl_val_def fl_sign_def fl_zero_def Let_def)
  then show thesis using that [of 0] True by simp
next
  case False
  then have "fl_mul (Fin a) (Fin b) = rnd (a * b)" by (simp add: fl_mul_Fin)
  moreover have "0 \<le> a * b" using assms(1,2) by simp
  ultimately show thesis using rnd_nonneg [OF _ assms(3)] that by metis
qed

lemma fl_div_normal:
  assumes "0 < a" and "0 < b" and "1 / 2 ^ 1022 \<le> a / b" and "a / b \<le> 2 ^ 1023"
  obtains y where "fl_div (Fin a) (Fin b) = Fin y"
    and "a / b * (1 - 1 / 2 ^ 53) \<le> y" and "y \<le> a / b * (1 + 1 / 2 ^ 53)"
proof -
  have "fl_div (Fin a) (Fin b) = rnd (a / b)" using assms(1,2) by (simp add: fl_div_Fin)
  then show thesis using rnd_normal [OF assms(3,4)] that by metis
qed

lemma fl_div_nonneg:
  assumes "0 \<le> a" and "0 < b" and "a / b \<le> 2 ^ 1023"
  obtains y where "fl_div (Fin a) (Fin b) = Fin y" and "0 \<le> y"
    and "y \<le> a / b * (1 + 1 / 2 ^ 53) + 1 / 2 ^ 1075"
proof (cases "a = 0")
  case True
  then have "fl_div (Fin a) (Fin b) = Fin 0" using assms(2) by (simp add: fl_div_zero_left)
  then show thesis using that [of 0] True by simp
next
  case False
  then have "fl_div (Fin a) (Fin b) = rnd (a / b)" using assms(2) by (simp add: fl_div_Fin)
  moreover have "0 \<le> a / b" using assms(1,2) by simp
  ultimately show thesis using rnd_nonneg [OF _ assms(3)] that by metis
qed

lemma gamma_double: "rnd (1 / 20) = Fin (3602879701896397 / 2 ^ 56)"
  by (simp add: rnd_eval)

section \<open>Facts about the double reading\<close>

lemma SIR_mitigated_u0_double_eq:
  "SIR_mitigated_u0_double N cf = SIR_u0_double N cf"
  by (simp add: SIR_mitigated_u0_double_def SIR_u0_double_def)

lemma SIR_u0_double_cases:
  "SIR_u0_double N cf =
     (case to_double cf of
        Inl e \<Rightarrow> Inl e
      | Inr c \<Rightarrow>
          if fl_is_zero c then Inl ZeroDivisionError
          else case to_double N of
                 Inl e \<Rightarrow> Inl e
               | Inr n \<Rightarrow> Inr (derive_spec reference_counts c n))"
  by (simp add: SIR_u0_double_def py_truediv_def derive_spec_def reference_counts_def
        fzeros3_def Let_def split: sum.split)

lemma to_double_PyFloat: "to_double (PyFloat x) = Inr x"
  by (simp add: to_double_def)

lemma to_double_overflow: "2 ^ 1024 \<le> i \<Longrightarrow> to_double (PyInt i) = Inl OverflowError"
proof -
  assume "2 ^ 1024 \<le> i"
  then have "(2::real) ^ 1024 \<le> of_int i"
    by (metis of_int_le_iff of_int_numeral of_int_power)
  then have "rnd (of_int i) = PInf" by (rule rnd_overflow)
  then show ?thesis by (simp add: to_double_def fl_is_inf_def)
qed

lemma small_population: "to_double (PyInt 1000) = Inr (Fin 1000)"
  by (simp add: to_double_def fl_is_inf_def rnd_eval)

lemmas fl_ops = fl_val_def fl_sign_def fl_is_zero_def fl_is_inf_def fl_zero_def fl_inf_def
  fl_neg_def fl_add_def fl_sub_def fl_mul_def fl_div_def to_double_PyFloat

lemma population_double: "to_double (PyInt 7770000000) = Inr (Fin 7770000000)"
  by (simp add: to_double_def fl_is_inf_def rnd_eval)


lemma SIR_f_double_floats:
  assumes "to_double N = Inr n"
  shows "SIR_f_double (PyFloat b) (PyFloat g) N du t u =
           Inr \<lparr>y0 = fl_div (fl_mul (fl_mul (fl_neg b) (y1 u)) (y0 u)) n,
                y1 = fl_sub (fl_div (fl_mul (fl_mul b (y1 u)) (y0 u)) n) (fl_mul g (y1 u)),
                y2 = fl_mul g (y1 u)\<rparr>"
  using assms by (simp add: SIR_f_double_def to_double_PyFloat py_neg_def Let_def)

lemma ten_double: "to_double (PyInt 10) = Inr (Fin 10)"
  by (simp add: to_double_def fl_is_inf_def rnd_eval)


text \<open>
  The I-component of the right-hand side for \<open>beta = 0.25\<close> and the double nearest to
  \<open>0.05\<close>, followed through its five roundings: above the threshold by a relative
  margin of \<open>2 ^ - 50\<close> it is positive, below it by that margin it is negative.
\<close>

lemma dI_positive:
  assumes i: "1 / 2 ^ 200 \<le> i" "i \<le> 2 ^ 200"
    and s: "s \<le> 2 ^ 200"
    and n: "1 / 2 ^ 200 \<le> n" "n \<le> 2 ^ 200"
    and ratio: "1 / 5 * (1 + 1 / 2 ^ 50) \<le> s / n"
  shows "\<exists>d. fl_sub (fl_div (fl_mul (fl_mul (Fin (1 / 4)) (Fin i)) (Fin s)) (Fin n))
                 (fl_mul (Fin (3602879701896397 / 2 ^ 56)) (Fin i)) = Fin d \<and> 0 < d"
proof -
  define c :: real where "c = 1 - 1 / 2 ^ 53"
  define C :: real where "C = 1 + 1 / 2 ^ 53"
  define u where "u = s / n"
  have c0: "0 \<le> c" and C0: "0 \<le> C" by (simp_all add: c_def C_def)
  have i0: "0 < i" using i(1) by (rule less_le_trans [rotated]) simp
  have n0: "0 < n" using n(1) by (rule less_le_trans [rotated]) simp
  have u_lo: "1 / 5 * (1 + 1 / 2 ^ 50) \<le> u" using ratio by (simp add: u_def)
  have u0: "0 < u" using u_lo by (rule less_le_trans [rotated]) simp
  have s_eq: "s = u * n" using n0 by (simp add: u_def)
  have s0: "0 < s" unfolding s_eq using u0 n0 by simp
  have s_lo: "1 / 2 ^ 203 \<le> s"
  proof -
    have "1 / 8 * (1 / 2 ^ 200) \<le> u * n"
      using u_lo n(1) by (intro mult_mono) simp_all
    then show ?thesis by (simp add: s_eq)
  qed
  \<comment> \<open>first product\<close>
  obtain t1 where t1: "fl_mul (Fin (1 / 4)) (Fin i) = Fin t1"
      and t1l: "1 / 4 * i * c \<le> t1" and t1u: "t1 \<le> 1 / 4 * i * C"
    unfolding c_def C_def
  proof (rule fl_mul_normal [of "1 / 4" i])
    show "1 / 2 ^ 1022 \<le> 1 / 4 * i" using i(1) by simp
    show "1 / 4 * i \<le> 2 ^ 1023" using i(2) by simp
  qed (use i0 in simp_all)
  have t1_lo: "1 / 2 ^ 203 \<le> t1" using t1l i(1) by (simp add: c_def)
  have t1_hi: "t1 \<le> 2 ^ 199" using t1u i(2) by (simp add: C_def)
  have t10: "0 < t1" using t1_lo by (rule less_le_trans [rotated]) simp
  \<comment> \<open>second product\<close>
  have x2_lo: "1 / 2 ^ 406 \<le> t1 * s"
  proof -
    have "1 / 2 ^ 203 * (1 / 2 ^ 203) \<le> t1 * s"
      using t1_lo s_lo by (intro mult_mono) simp_all
    then show ?thesis by simp
  qed
  have x2_hi: "t1 * s \<le> 2 ^ 399"
  proof -
    have "t1 * s \<le> 2 ^ 199 * 2 ^ 200"
      using t1_hi s t10 s0 by (intro mult_mono) simp_all
    then show ?thesis by simp
  qed
  obtain t2 where t2: "fl_mul (Fin t1) (Fin s) = Fin t2"
      and t2l: "t1 * s * c \<le> t2" and t2u: "t2 \<le> t1 * s * C"
    unfolding c_def C_def
  proof (rule fl_mul_normal [of t1 s])
    show "1 / 2 ^ 1022 \<le> t1 * s" using x2_lo by simp
    show "t1 * s \<le> 2 ^ 1023" using x2_hi by simp
  qed (use t10 s0 in simp_all)
  have t2_lo: "1 / 2 ^ 407 \<le> t2" using t2l x2_lo by (simp add: c_def)
  have t2_hi: "t2 \<le> 2 ^ 400" using t2u x2_hi by (simp add: C_def)
  have t20: "0 < t2" using t2_lo by (rule less_le_trans [rotated]) simp
  \<comment> \<open>the quotient\<close>
  have x3_lo: "1 / 2 ^ 607 \<le> t2 / n"
  proof -
    have "1 / 2 ^ 407 / 2 ^ 200 \<le> t2 / n"
      using t2_lo n(2) n0 by (intro frac_le) simp_all
    then show ?thesis by simp
  qed
  have x3_hi: "t2 / n \<le> 2 ^ 600"
  proof -
    have "t2 / n \<le> 2 ^ 400 / (1 / 2 ^ 200)"
      using t2_hi n(1) by (intro frac_le) simp_all
    then show ?thesis by simp
  qed
  obtain t3 where t3: "fl_div (Fin t2) (Fin n) = Fin t3"
      and t3l: "t2 / n * c \<le> t3" and t3u: "t3 \<le> t2 / n * C"
    unfolding c_def C_def
  proof (rule fl_div_normal [of t2 n])
    show "1 / 2 ^ 1022 \<le> t2 / n" using x3_lo by (rule order_trans [rotated]) simp
    show "t2 / n \<le> 2 ^ 1023" using x3_hi by (rule order_trans) simp
  qed (use t20 n0 in simp_all)
  have t3_hi: "t3 \<le> 2 ^ 601" using t3u x3_hi by (simp add: C_def)
  \<comment> \<open>the recovery term\<close>
  obtain t4 where t4: "fl_mul (Fin (3602879701896397 / 2 ^ 56)) (Fin i) = Fin t4"
      and t4l: "3602879701896397 / 2 ^ 56 * i * c \<le> t4"
      and t4u: "t4 \<le> 3602879701896397 / 2 ^ 56 * i * C"
    unfolding c_def C_def
  proof (rule fl_mul_normal [of "3602879701896397 / 2 ^ 56" i])
    show "1 / 2 ^ 1022 \<le> 3602879701896397 / 2 ^ 56 * i" using i(1) by simp
    show "3602879701896397 / 2 ^ 56 * i \<le> 2 ^ 1023" using i(2) by simp
  qed (use i0 in simp_all)
  have t40: "0 < t4" using t4l i(1) by (simp add: c_def)
  \<comment> \<open>the infection term from below\<close>
  have "1 / 4 * i * c * u \<le> t1 * u" using t1l u0 by (intro mult_right_mono) simp_all
  moreover have "1 / 4 * i * c * (1 / 5 * (1 + 1 / 2 ^ 50)) \<le> 1 / 4 * i * c * u"
    using u_lo i0 c0 by (intro mult_left_mono) simp_all
  ultimately have a1: "1 / 4 * i * c * (1 / 5 * (1 + 1 / 2 ^ 50)) \<le> t1 * u" by linarith
  have "t1 * u * c = t1 * s * c / n" by (simp add: u_def)
  also have "\<dots> \<le> t2 / n" using t2l n0 by (intro divide_right_mono) simp_all
  finally have a2: "t1 * u * c \<le> t2 / n" .
  have "1 / 4 * i * c * (1 / 5 * (1 + 1 / 2 ^ 50)) * c \<le> t1 * u * c"
    using a1 c0 by (intro mult_right_mono) simp_all
  then have "1 / 4 * i * c * (1 / 5 * (1 + 1 / 2 ^ 50)) * c \<le> t2 / n" using a2 by linarith
  then have "1 / 4 * i * c * (1 / 5 * (1 + 1 / 2 ^ 50)) * c * c \<le> t2 / n * c"
    using c0 by (intro mult_right_mono) simp_all
  then have a3: "1 / 4 * i * c * (1 / 5 * (1 + 1 / 2 ^ 50)) * c * c \<le> t3" using t3l by linarith
  have gap: "1 / 2 ^ 1022 \<le> t3 - t4"
    using a3 t4u i(1) by (simp add: c_def C_def)
  obtain d where d: "rnd (t3 - t4) = Fin d" and dl: "(t3 - t4) * (1 - 1 / 2 ^ 53) \<le> d"
  proof (rule rnd_normal [of "t3 - t4"])
    show "1 / 2 ^ 1022 \<le> t3 - t4" by (rule gap)
    show "t3 - t4 \<le> 2 ^ 1023" using t3_hi t40 by simp
  qed
  have "0 < t3 - t4" using gap by (rule less_le_trans [rotated]) simp
  then have "0 < (t3 - t4) * (1 - 1 / 2 ^ 53)" by simp
  then have "0 < d" using dl by linarith
  moreover have "fl_sub (Fin t3) (Fin t4) = Fin d"
    using t40 \<open>0 < t3 - t4\<close> by (simp add: fl_sub_Fin d)
  ultimately show ?thesis unfolding t1 t2 t3 t4 by blast
qed

lemma dI_negative:
  assumes i: "1 / 2 ^ 200 \<le> i" "i \<le> 2 ^ 200"
    and s: "0 \<le> s" "s \<le> 2 ^ 200"
    and n: "1 / 2 ^ 200 \<le> n" "n \<le> 2 ^ 200"
    and ratio: "s / n \<le> 1 / 5 * (1 - 1 / 2 ^ 50)"
  shows "\<exists>d. fl_sub (fl_div (fl_mul (fl_mul (Fin (1 / 4)) (Fin i)) (Fin s)) (Fin n))
                 (fl_mul (Fin (3602879701896397 / 2 ^ 56)) (Fin i)) = Fin d \<and> d < 0"
proof -
  define c :: real where "c = 1 - 1 / 2 ^ 53"
  define C :: real where "C = 1 + 1 / 2 ^ 53"
  define h :: real where "h = 1 / 2 ^ 1075"
  define u where "u = s / n"
  have c0: "0 \<le> c" and C0: "0 \<le> C" and h0: "0 \<le> h" by (simp_all add: c_def C_def h_def)
  have i0: "0 < i" using i(1) by (rule less_le_trans [rotated]) simp
  have n0: "0 < n" using n(1) by (rule less_le_trans [rotated]) simp
  have u_hi: "u \<le> 1 / 5 * (1 - 1 / 2 ^ 50)" using ratio by (simp add: u_def)
  have u0: "0 \<le> u" using s(1) n0 by (simp add: u_def)
  \<comment> \<open>first product\<close>
  obtain t1 where t1: "fl_mul (Fin (1 / 4)) (Fin i) = Fin t1"
      and t1l: "1 / 4 * i * c \<le> t1" and t1u: "t1 \<le> 1 / 4 * i * C"
    unfolding c_def C_def
  proof (rule fl_mul_normal [of "1 / 4" i])
    show "1 / 2 ^ 1022 \<le> 1 / 4 * i" using i(1) by simp
    show "1 / 4 * i \<le> 2 ^ 1023" using i(2) by simp
  qed (use i0 in simp_all)
  have t1_hi: "t1 \<le> 2 ^ 199" using t1u i(2) by (simp add: C_def)
  have t10: "0 < t1" using t1l i0 by (simp add: c_def)
  \<comment> \<open>second product\<close>
  have x2_hi: "t1 * s \<le> 2 ^ 399"
  proof -
    have "t1 * s \<le> 2 ^ 199 * 2 ^ 200"
      using t1_hi s t10 by (intro mult_mono) simp_all
    then show ?thesis by simp
  qed
  obtain t2 where t2: "fl_mul (Fin t1) (Fin s) = Fin t2"
      and t20: "0 \<le> t2" and t2u: "t2 \<le> t1 * s * C + h"
    unfolding C_def h_def
  proof (rule fl_mul_nonneg [of t1 s])
    show "t1 * s \<le> 2 ^ 1023" using x2_hi by (rule order_trans) simp
  qed (use t10 s in simp_all)
  have t2_hi: "t2 \<le> 2 ^ 401" using t2u x2_hi by (simp add: C_def h_def)
  \<comment> \<open>the quotient\<close>
  have x3_hi: "t2 / n \<le> 2 ^ 601"
  proof -
    have "t2 / n \<le> 2 ^ 401 / (1 / 2 ^ 200)"
      using t2_hi n(1) by (intro frac_le) simp_all
    then show ?thesis by simp
  qed
  obtain t3 where t3: "fl_div (Fin t2) (Fin n) = Fin t3"
      and t30: "0 \<le> t3" and t3u: "t3 \<le> t2 / n * C + h"
    unfolding C_def h_def
  proof (rule fl_div_nonneg [of t2 n])
    show "t2 / n \<le> 2 ^ 1023" using x3_hi by (rule order_trans) simp
  qed (use t20 n0 in simp_all)
  \<comment> \<open>the recovery term\<close>
  obtain t4 where t4: "fl_mul (Fin (3602879701896397 / 2 ^ 56)) (Fin i) = Fin t4"
      and t4l: "3602879701896397 / 2 ^ 56 * i * c \<le> t4"
      and t4u: "t4 \<le> 3602879701896397 / 2 ^ 56 * i * C"
    unfolding c_def C_def
  proof (rule fl_mul_normal [of "3602879701896397 / 2 ^ 56" i])
    show "1 / 2 ^ 1022 \<le> 3602879701896397 / 2 ^ 56 * i" using i(1) by simp
    show "3602879701896397 / 2 ^ 56 * i \<le> 2 ^ 1023" using i(2) by simp
  qed (use i0 in simp_all)
  have t40: "0 < t4" using t4l i(1) by (simp add: c_def)
  have t4_hi: "t4 \<le> 2 ^ 200" using t4u i(2) by (simp add: C_def)
  \<comment> \<open>the infection term from above\<close>
  have "t1 * u \<le> 1 / 4 * i * C * u" using t1u u0 by (intro mult_right_mono) simp_all
  moreover have "1 / 4 * i * C * u \<le> 1 / 4 * i * C * (1 / 5 * (1 - 1 / 2 ^ 50))"
    using u_hi i0 C0 by (intro mult_left_mono) simp_all
  ultimately have a1: "t1 * u \<le> 1 / 4 * i * C * (1 / 5 * (1 - 1 / 2 ^ 50))" by linarith
  have hn: "h / n \<le> h * 2 ^ 200"
  proof -
    have "h / n \<le> h / (1 / 2 ^ 200)" using h0 n(1) by (intro frac_le) simp_all
    then show ?thesis by simp
  qed
  have "t2 / n \<le> (t1 * s * C + h) / n" using t2u n0 by (intro divide_right_mono) simp_all
  also have "\<dots> = t1 * u * C + h / n" by (simp add: u_def add_divide_distrib)
  finally have a2: "t2 / n \<le> t1 * u * C + h / n" .
  have "t1 * u * C \<le> 1 / 4 * i * C * (1 / 5 * (1 - 1 / 2 ^ 50)) * C"
    using a1 C0 by (intro mult_right_mono) simp_all
  then have "t2 / n \<le> 1 / 4 * i * C * (1 / 5 * (1 - 1 / 2 ^ 50)) * C + h * 2 ^ 200"
    using a2 hn by linarith
  then have "t2 / n * C \<le> (1 / 4 * i * C * (1 / 5 * (1 - 1 / 2 ^ 50)) * C + h * 2 ^ 200) * C"
    using C0 by (intro mult_right_mono) simp_all
  then have a3: "t3 \<le> (1 / 4 * i * C * (1 / 5 * (1 - 1 / 2 ^ 50)) * C + h * 2 ^ 200) * C + h"
    using t3u by linarith
  have hb: "h * 2 ^ 200 * C + h \<le> 1 / 2 ^ 800" by (simp add: h_def C_def)
  have kappa: "1 / 4 * C * (1 / 5 * (1 - 1 / 2 ^ 50)) * C * C - 3602879701896397 / 2 ^ 56 * c
                 \<le> - (1 / 2 ^ 60)"
    by (simp add: c_def C_def)
  have "t3 - t4 \<le> (1 / 4 * C * (1 / 5 * (1 - 1 / 2 ^ 50)) * C * C - 3602879701896397 / 2 ^ 56 * c) * i
                    + (h * 2 ^ 200 * C + h)"
    using a3 t4l by (simp add: algebra_simps)
  also have "\<dots> \<le> - (1 / 2 ^ 60) * i + 1 / 2 ^ 800"
    using kappa hb i0 by (intro add_mono mult_right_mono) simp_all
  also have "\<dots> \<le> - (1 / 2 ^ 60) * (1 / 2 ^ 200) + 1 / 2 ^ 800"
    using i(1) by simp
  also have "\<dots> \<le> - (1 / 2 ^ 1022)" by simp
  finally have gap: "t3 - t4 \<le> - (1 / 2 ^ 1022)" .
  obtain d where d: "rnd (t3 - t4) = Fin d" and du: "d \<le> (t3 - t4) * (1 - 1 / 2 ^ 53)"
  proof (rule rnd_negative [of "t3 - t4"])
    show "t3 - t4 \<le> - (1 / 2 ^ 1022)" by (rule gap)
    have "- (2 ^ 200) \<le> t3 - t4" using t30 t4_hi by linarith
    then show "- (2 ^ 1023) \<le> t3 - t4" by (rule order_trans [rotated]) simp
  qed
  have neg: "t3 - t4 < 0" using gap by (rule le_less_trans) simp
  then have "(t3 - t4) * (1 - 1 / 2 ^ 53) < 0" by (simp add: mult_less_0_iff)
  then have "d < 0" using du by linarith
  moreover have "fl_sub (Fin t3) (Fin t4) = Fin d"
    using t40 neg by (simp add: fl_sub_Fin d)
  ultimately show ?thesis unfolding t1 t2 t3 t4 by blast
qed

section \<open>The initial-state derivation\<close>

text \<open>
  C1, as stated: for every confirmed fraction in (0,1], every population \<open>N > 0\<close> and
  every triple of observed counts, the derivation returns the state of the formulas at
  those counts. The code takes no observed counts: at confirmed fraction 1 it returns
  R0 = 89928 and I0 = 109330, where the formulas at the counts (0, 0, 0) give zero for
  both. Nor does it return a state for every population: the int \<open>10 ^ 400\<close> raises
  \<^verbatim>\<open>OverflowError\<close> in the last line.
\<close>

theorem derivation_counts_counterexample:
  "SIR_u0_double (PyInt 7770000000) (PyFloat (Fin 1))
     = Inr \<lparr>y0 = Fin 7769800742, y1 = Fin 109330, y2 = Fin 89928\<rparr>
   \<and> derive_spec \<lparr>cumulativeConfirmed = Fin 0, cumulativeRecoveredConfirmed = Fin 0,
         additionalRecoveredOffset = Fin 0\<rparr> (Fin 1) (Fin 7770000000)
     = \<lparr>y0 = Fin 7770000000, y1 = Fin 0, y2 = Fin 0\<rparr>
   \<and> SIR_u0_double (PyInt (10 ^ 400)) (PyFloat (Fin 1)) = Inl OverflowError"
  by (simp add: SIR_u0_double_cases derive_spec_def reference_counts_def fl_ops
        to_double_overflow population_double rnd_eval)

text \<open>
  C1, amended: with the observed counts fixed to the literals 199258, 81972 and 7956
  of the code, for every confirmed fraction in (0,1] and every population that is a
  float or an int within the range of doubles, both entry points derive
  \<open>R0 = 81972 / confirmedFraction + 7956\<close>, \<open>I0 = 199258 / confirmedFraction - R0\<close> and
  \<open>S0 = N - I0 - R0\<close>, every operation rounded to the nearest double.
\<close>

theorem initial_state_derivation:
  assumes "to_double confirmed_fraction = Inr (Fin c)" and "0 < c" and "c \<le> 1"
    and "to_double N = Inr n"
  shows "SIR_u0_double N confirmed_fraction = Inr (derive_spec reference_counts (Fin c) n)
       \<and> SIR_mitigated_u0_double N confirmed_fraction
           = Inr (derive_spec reference_counts (Fin c) n)"
  using assms by (simp add: SIR_mitigated_u0_double_eq SIR_u0_double_cases fl_is_zero_def)

text \<open>
  The defaults of the notebook: the double nearest to 0.15, which is
  \<open>5404319552844595 / 2 ^ 55\<close>, and 7.77 billion people. The derived I0 is within
  \<open>10 ^ - 9\<close> of the exact quotient \<open>2321852 / 3\<close>.
\<close>

theorem initial_state_derivation_witness:
  "to_double (PyFloat (Fin (5404319552844595 / 2 ^ 55))) = Inr (Fin (5404319552844595 / 2 ^ 55))
   \<and> (0::real) < 5404319552844595 / 2 ^ 55 \<and> (5404319552844595 / 2 ^ 55 :: real) \<le> 1
   \<and> to_double (PyInt 7770000000) = Inr (Fin 7770000000)
   \<and> SIR_u0_double (PyInt 7770000000) (PyFloat (Fin (5404319552844595 / 2 ^ 55)))
       = Inr \<lparr>y0 = Fin (8146042605622613 / 2 ^ 20), y1 = Fin (3324092802050731 / 2 ^ 32),
              y2 = Fin 554436\<rparr>
   \<and> SIR_mitigated_u0_double (PyInt 7770000000) (PyFloat (Fin (5404319552844595 / 2 ^ 55)))
       = Inr \<lparr>y0 = Fin (8146042605622613 / 2 ^ 20), y1 = Fin (3324092802050731 / 2 ^ 32),
              y2 = Fin 554436\<rparr>
   \<and> \<bar>3324092802050731 / 2 ^ 32 - 2321852 / 3\<bar> < (1 / 10 ^ 9 :: real)"
proof -
  have d: "derive_spec reference_counts (Fin (5404319552844595 / 2 ^ 55)) (Fin 7770000000)
        = \<lparr>y0 = Fin (8146042605622613 / 2 ^ 20), y1 = Fin (3324092802050731 / 2 ^ 32),
              y2 = Fin 554436\<rparr>"
    by (simp add: derive_spec_def reference_counts_def fl_ops rnd_eval)
  have h: "SIR_u0_double (PyInt 7770000000) (PyFloat (Fin (5404319552844595 / 2 ^ 55)))
             = Inr (derive_spec reference_counts (Fin (5404319552844595 / 2 ^ 55)) (Fin 7770000000))
         \<and> SIR_mitigated_u0_double (PyInt 7770000000) (PyFloat (Fin (5404319552844595 / 2 ^ 55)))
             = Inr (derive_spec reference_counts (Fin (5404319552844595 / 2 ^ 55)) (Fin 7770000000))"
    by (rule initial_state_derivation) (simp_all add: population_double to_double_PyFloat)
  show ?thesis
    using h unfolding d by (simp add: population_double to_double_PyFloat)
qed

text \<open>
  C2, as stated: the derivation fails whenever the confirmed fraction is not positive,
  whenever the derived I0 is negative and whenever the derived S0 is negative. The code
  has no such check. With a population of 1000 and 15 percent confirmed it returns a
  state whose S0 is negative; with the confirmed fraction \<open>-1\<close> it returns a state
  whose I0 and R0 are negative. (The exact reading; the same inputs in doubles follow
  the amended statement.)
\<close>

theorem derivation_rejects_counterexample:
  "SIR_u0 1000 (15/100) = Inr \<lparr>x0 = - 3982160/3, x1 = 2321852/3, x2 = 554436\<rparr>
   \<and> x0 \<lparr>x0 = - 3982160/3, x1 = 2321852/3, x2 = 554436\<rparr> < 0
   \<and> SIR_u0 7770000000 (- 1) = Inr \<lparr>x0 = 7770199258, x1 = - 125242, x2 = - 74016\<rparr>
   \<and> x1 \<lparr>x0 = 7770199258, x1 = - 125242, x2 = - 74016\<rparr> < 0"
  by (simp add: SIR_u0_value)

text \<open>
  C2, amended: the derivation validates nothing. It fails with
  \<^verbatim>\<open>ZeroDivisionError\<close> when the confirmed fraction is a zero; when the confirmed
  fraction is negative, or the derived I0 or S0 is negative, it does not fail but
  returns the computed state unchanged: it never clamps. Its only other failure is
  \<^verbatim>\<open>OverflowError\<close> for an int argument beyond the range of doubles. Both entry
  points behave alike.
\<close>

theorem derivation_validates_nothing:
  "SIR_u0_double N cf =
     (case to_double cf of
        Inl e \<Rightarrow> Inl e
      | Inr c \<Rightarrow>
          if fl_is_zero c then Inl ZeroDivisionError
          else case to_double N of
                 Inl e \<Rightarrow> Inl e
               | Inr n \<Rightarrow> Inr (derive_spec reference_counts c n))
   \<and> SIR_mitigated_u0_double N cf = SIR_u0_double N cf"
  using SIR_u0_double_cases [of N cf] by (simp add: SIR_mitigated_u0_double_eq)

text \<open>
  A zero of either sign and the int zero; a population beyond the doubles; and the
  two inputs of the counterexample, in doubles.
\<close>

theorem derivation_validates_nothing_witness:
  "SIR_u0_double (PyInt 7770000000) (PyFloat (Fin 0)) = Inl ZeroDivisionError
   \<and> SIR_u0_double (PyInt 7770000000) (PyFloat NZero) = Inl ZeroDivisionError
   \<and> SIR_u0_double (PyInt 7770000000) (PyInt 0) = Inl ZeroDivisionError
   \<and> SIR_mitigated_u0_double (PyInt (10 ^ 400)) (PyFloat (Fin 1)) = Inl OverflowError
   \<and> SIR_mitigated_u0_double (PyInt 7770000000) (PyFloat (Fin (- 1)))
       = Inr \<lparr>y0 = Fin 7770199258, y1 = Fin (- 125242), y2 = Fin (- 74016)\<rparr>
   \<and> SIR_mitigated_u0_double (PyInt 1000) (PyFloat (Fin (5404319552844595 / 2 ^ 55)))
       = Inr \<lparr>y0 = Fin (- 5701082322479787 / 2 ^ 32), y1 = Fin (3324092802050731 / 2 ^ 32),
              y2 = Fin 554436\<rparr>"
proof -
  have z: "to_double (PyInt 0) = Inr (Fin 0)"
    by (simp add: to_double_def fl_is_inf_def rnd_eval)
  have d: "derive_spec reference_counts (Fin (- 1)) (Fin 7770000000)
             = \<lparr>y0 = Fin 7770199258, y1 = Fin (- 125242), y2 = Fin (- 74016)\<rparr>"
    by (simp add: derive_spec_def reference_counts_def fl_ops rnd_eval)
  have e: "derive_spec reference_counts (Fin (5404319552844595 / 2 ^ 55)) (Fin 1000)
             = \<lparr>y0 = Fin (- 5701082322479787 / 2 ^ 32), y1 = Fin (3324092802050731 / 2 ^ 32),
                  y2 = Fin 554436\<rparr>"
    by (simp add: derive_spec_def reference_counts_def fl_ops rnd_eval)
  have f: "SIR_mitigated_u0_double (PyInt 1000) (PyFloat (Fin (5404319552844595 / 2 ^ 55)))
             = Inr (derive_spec reference_counts (Fin (5404319552844595 / 2 ^ 55)) (Fin 1000))"
    using derivation_validates_nothing [of "PyInt 1000" "PyFloat (Fin (5404319552844595 / 2 ^ 55))"]
    by (simp add: to_double_PyFloat small_population fl_is_zero_def)
  show ?thesis
    unfolding f e
    using derivation_validates_nothing [of "PyInt 7770000000" "PyFloat (Fin 0)"]
          derivation_validates_nothing [of "PyInt 7770000000" "PyFloat NZero"]
          derivation_validates_nothing [of "PyInt 7770000000" "PyInt 0"]
          derivation_validates_nothing [of "PyInt (10 ^ 400)" "PyFloat (Fin 1)"]
          derivation_validates_nothing [of "PyInt 7770000000" "PyFloat (Fin (- 1))"]
    by (simp add: to_double_PyFloat population_double to_double_overflow z d fl_is_zero_def)
qed

section \<open>The mitigation multiplier\<close>

text \<open>
  C3. The multiplier that the mitigated right-hand side applies to \<open>beta\<close> is the
  specification's step function of the schedule \<open>(q, Nq)\<close>: it is \<open>q\<close> at every time
  before \<open>Nq\<close> and 1 at \<open>Nq\<close> and at every later time. The unmitigated right-hand
  side is the system with no schedule, whose multiplier is 1 at all times.
\<close>

theorem mitigation_multiplier:
  "qval q Nq t = q_spec (Some (q, Nq)) t
   \<and> SIR_mitigated_f beta gamma N q Nq du t u
       = rhs_spec (q_spec (Some (q, Nq)) t) beta gamma N u
   \<and> SIR_f beta gamma N du t u = rhs_spec (q_spec None t) beta gamma N u
   \<and> q_spec None t = 1
   \<and> (t < Nq \<longrightarrow> SIR_mitigated_f beta gamma N q Nq du t u = rhs_spec q beta gamma N u)
   \<and> (Nq \<le> t \<longrightarrow> SIR_mitigated_f beta gamma N q Nq du t u = rhs_spec 1 beta gamma N u)"
  by (simp add: SIR_mitigated_f_value SIR_f_value rhs_spec_def q_spec_def qval_def)

text \<open>
  Half the contacts for 180 days, at day 100, at day 180 itself and at day 200, on a
  population of ten with eight susceptible and two infected.
\<close>

theorem mitigation_multiplier_witness:
  "(100::real) < 180 \<and> (180::real) \<le> 180 \<and> (180::real) \<le> 200
   \<and> qval (1/2) 180 100 = 1/2 \<and> qval (1/2) 180 180 = 1 \<and> qval (1/2) 180 200 = 1
   \<and> SIR_mitigated_f (1/4) (1/20) 10 (1/2) 180 zeros3 100 \<lparr>x0 = 8, x1 = 2, x2 = 0\<rparr>
       = \<lparr>x0 = - 1/5, x1 = 1/10, x2 = 1/10\<rparr>
   \<and> SIR_mitigated_f (1/4) (1/20) 10 (1/2) 180 zeros3 180 \<lparr>x0 = 8, x1 = 2, x2 = 0\<rparr>
       = \<lparr>x0 = - 2/5, x1 = 3/10, x2 = 1/10\<rparr>
   \<and> SIR_mitigated_f (1/4) (1/20) 10 (1/2) 180 zeros3 200 \<lparr>x0 = 8, x1 = 2, x2 = 0\<rparr>
       = \<lparr>x0 = - 2/5, x1 = 3/10, x2 = 1/10\<rparr>
   \<and> SIR_f (1/4) (1/20) 10 zeros3 100 \<lparr>x0 = 8, x1 = 2, x2 = 0\<rparr>
       = \<lparr>x0 = - 2/5, x1 = 3/10, x2 = 1/10\<rparr>"
  using mitigation_multiplier
          [of "1/2" 180 100 "1/4" "1/20" 10 zeros3 "\<lparr>x0 = 8, x1 = 2, x2 = 0\<rparr>"]
        mitigation_multiplier
          [of "1/2" 180 180 "1/4" "1/20" 10 zeros3 "\<lparr>x0 = 8, x1 = 2, x2 = 0\<rparr>"]
        mitigation_multiplier
          [of "1/2" 180 200 "1/4" "1/20" 10 zeros3 "\<lparr>x0 = 8, x1 = 2, x2 = 0\<rparr>"]
  by (simp add: rhs_spec_def q_spec_def)

section \<open>The infection peak\<close>

text \<open>
  C7, as stated: for \<open>beta = 0.25\<close> and \<open>gamma = 0.05\<close> the I-component of the
  right-hand side is zero exactly when \<open>S/N\<close> equals \<open>gamma/beta = 0.2\<close>, and negative
  only when \<open>S/N\<close> is below it. With two susceptible and three infected out of ten,
  \<open>S/N\<close> equals \<open>gamma/beta\<close> (as exact numbers, and as the doubles that the two
  quotients round to), yet the code returns \<open>- 1 / 2 ^ 55\<close>: the infection term
  rounds to the double below 0.15 and the recovery term to the double above it.
\<close>

theorem peak_sign_counterexample:
  "SIR_f_double (PyFloat (Fin (1 / 4))) (PyFloat (rnd (1 / 20))) (PyInt 10) fzeros3 (Fin 0)
       \<lparr>y0 = Fin 2, y1 = Fin 3, y2 = Fin 5\<rparr>
     = Inr \<lparr>y0 = Fin (- 5404319552844595 / 2 ^ 55), y1 = Fin (- 1 / 2 ^ 55),
            y2 = Fin (1351079888211149 / 2 ^ 53)\<rparr>
   \<and> (2 :: real) / 10 = (1 / 20) / (1 / 4)
   \<and> fl_div (Fin 2) (Fin 10) = fl_div (rnd (1 / 20)) (Fin (1 / 4))"
  by (simp add: SIR_f_double_floats [OF ten_double] fl_ops rnd_eval)

text \<open>
  C7, amended: for \<open>beta = 0.25\<close> and \<open>gamma\<close> the double nearest to 0.05, and every
  state with \<open>S \<ge> 0\<close> whose \<open>I\<close>, \<open>S\<close> and population lie between \<open>2 ^ - 200\<close> and
  \<open>2 ^ 200\<close> in size, the I-component that the code computes is positive whenever
  \<open>S/N \<ge> 0.2 * (1 + 2 ^ - 50)\<close> and negative whenever \<open>S/N \<le> 0.2 * (1 - 2 ^ - 50)\<close>.
  Inside that band around \<open>gamma/beta\<close> its sign is decided by rounding. (Where the
  peak of a solver's run falls is not part of the statement.)
\<close>

theorem peak_sign_with_margin:
  assumes N: "to_double N = Inr (Fin n)"
    and i: "1 / 2 ^ 200 \<le> i" "i \<le> 2 ^ 200"
    and s: "0 \<le> s" "s \<le> 2 ^ 200"
    and n: "1 / 2 ^ 200 \<le> n" "n \<le> 2 ^ 200"
  shows "\<exists>du'. SIR_f_double (PyFloat (Fin (1 / 4))) (PyFloat (rnd (1 / 20))) N du t
                  \<lparr>y0 = Fin s, y1 = Fin i, y2 = r\<rparr> = Inr du'
           \<and> (1 / 5 * (1 + 1 / 2 ^ 50) \<le> s / n \<longrightarrow> (\<exists>d. y1 du' = Fin d \<and> 0 < d))
           \<and> (s / n \<le> 1 / 5 * (1 - 1 / 2 ^ 50) \<longrightarrow> (\<exists>d. y1 du' = Fin d \<and> d < 0))"
proof -
  let ?dI = "fl_sub (fl_div (fl_mul (fl_mul (Fin (1 / 4)) (Fin i)) (Fin s)) (Fin n))
               (fl_mul (Fin (3602879701896397 / 2 ^ 56)) (Fin i))"
  let ?u = "\<lparr>y0 = Fin s, y1 = Fin i, y2 = r\<rparr>"
  define du' where "du' =
    \<lparr>y0 = fl_div (fl_mul (fl_mul (fl_neg (Fin (1 / 4))) (y1 ?u)) (y0 ?u)) (Fin n),
     y1 = fl_sub (fl_div (fl_mul (fl_mul (Fin (1 / 4)) (y1 ?u)) (y0 ?u)) (Fin n))
            (fl_mul (rnd (1 / 20)) (y1 ?u)),
     y2 = fl_mul (rnd (1 / 20)) (y1 ?u)\<rparr>"
  have run: "SIR_f_double (PyFloat (Fin (1 / 4))) (PyFloat (rnd (1 / 20))) N du t ?u = Inr du'"
    unfolding du'_def using N by (rule SIR_f_double_floats)
  have dI: "y1 du' = ?dI"
    unfolding du'_def gamma_double by simp
  have pos: "\<exists>d. y1 du' = Fin d \<and> 0 < d" if "1 / 5 * (1 + 1 / 2 ^ 50) \<le> s / n"
    unfolding dI using i s(2) n that by (rule dI_positive)
  have neg: "\<exists>d. y1 du' = Fin d \<and> d < 0" if "s / n \<le> 1 / 5 * (1 - 1 / 2 ^ 50)"
    unfolding dI using i s n that by (rule dI_negative)
  show ?thesis using run pos neg by blast
qed

text \<open>
  Out of ten, with two infected: eight susceptible give a positive rate, one
  susceptible a negative one.
\<close>

theorem peak_sign_with_margin_witness:
  "to_double (PyInt 10) = Inr (Fin 10)
   \<and> (1 / 2 ^ 200 :: real) \<le> 2 \<and> (2 :: real) \<le> 2 ^ 200
   \<and> (0 :: real) \<le> 8 \<and> (8 :: real) \<le> 2 ^ 200
   \<and> (1 / 2 ^ 200 :: real) \<le> 10 \<and> (10 :: real) \<le> 2 ^ 200
   \<and> (1 / 5 * (1 + 1 / 2 ^ 50) :: real) \<le> 8 / 10
   \<and> (\<exists>du' d. SIR_f_double (PyFloat (Fin (1 / 4))) (PyFloat (rnd (1 / 20))) (PyInt 10) fzeros3 (Fin 0)
                  \<lparr>y0 = Fin 8, y1 = Fin 2, y2 = Fin 0\<rparr> = Inr du'
              \<and> y1 du' = Fin d \<and> 0 < d)
   \<and> (1 :: real) / 10 \<le> 1 / 5 * (1 - 1 / 2 ^ 50)
   \<and> (\<exists>du' d. SIR_f_double (PyFloat (Fin (1 / 4))) (PyFloat (rnd (1 / 20))) (PyInt 10) fzeros3 (Fin 0)
                  \<lparr>y0 = Fin 1, y1 = Fin 2, y2 = Fin 7\<rparr> = Inr du'
              \<and> y1 du' = Fin d \<and> d < 0)"
proof -
  have a: "(1 / 5 * (1 + 1 / 2 ^ 50) :: real) \<le> 8 / 10" by simp
  have b: "(1 :: real) / 10 \<le> 1 / 5 * (1 - 1 / 2 ^ 50)" by simp
  have "\<exists>du' d. SIR_f_double (PyFloat (Fin (1 / 4))) (PyFloat (rnd (1 / 20))) (PyInt 10) fzeros3 (Fin 0)
                  \<lparr>y0 = Fin 8, y1 = Fin 2, y2 = Fin 0\<rparr> = Inr du'
              \<and> y1 du' = Fin d \<and> 0 < d"
    using peak_sign_with_margin [OF ten_double, of 2 8 fzeros3 "Fin 0" "Fin 0"] a by auto
  moreover have "\<exists>du' d. SIR_f_double (PyFloat (Fin (1 / 4))) (PyFloat (rnd (1 / 20))) (PyInt 10) fzeros3 (Fin 0)
                  \<lparr>y0 = Fin 1, y1 = Fin 2, y2 = Fin 7\<rparr> = Inr du'
              \<and> y1 du' = Fin d \<and> d < 0"
    using peak_sign_with_margin [OF ten_double, of 2 1 fzeros3 "Fin 0" "Fin 7"] b by auto
  ultimately show ?thesis using ten_double by simp
qed

section \<open>The reference scenario\<close>

text \<open>
  C8, as stated: with 15 percent confirmed the derived state has I0 near 1,241,913 and
  R0 near 554,613. The code derives I0 = 2321852/3, which is more than 467,962 below
  the stated value, and R0 = 554436, which is 177 below the stated value.
\<close>

theorem reference_state_counterexample:
  "SIR_u0 7770000000 (15/100) = Inr \<lparr>x0 = 23306014840/3, x1 = 2321852/3, x2 = 554436\<rparr>
   \<and> \<bar>x1 \<lparr>x0 = 23306014840/3, x1 = 2321852/3, x2 = 554436\<rparr> - 1241913\<bar> > 467962
   \<and> \<bar>x2 \<lparr>x0 = 23306014840/3, x1 = 2321852/3, x2 = 554436\<rparr> - 554613\<bar> = 177"
  by (simp add: SIR_u0_value)

text \<open>
  C8, amended: with 15 percent confirmed the derived state is I0 = 2321852/3 (about
  773,951) and R0 = 554,436, with S0 = population - I0 - R0, in both entry points.
\<close>

theorem reference_state:
  "SIR_u0 N (15/100) = Inr \<lparr>x0 = N - 2321852/3 - 554436, x1 = 2321852/3, x2 = 554436\<rparr>
   \<and> SIR_mitigated_u0 N (15/100)
       = Inr \<lparr>x0 = N - 2321852/3 - 554436, x1 = 2321852/3, x2 = 554436\<rparr>
   \<and> \<bar>2321852/3 - 773951\<bar> < (1::real)"
  by (simp add: SIR_mitigated_u0_eq SIR_u0_value)

section \<open>Initial infections are positive\<close>




end
